theory Spec2Isabelle
  imports Complex_Main
begin

section \<open>oauth2freeipa: the FreeIPA authenticator of \<^verbatim>\<open>src/oauth2freeipa/__init__.py\<close>\<close>

text \<open>
  The module talks to the outside world only through \<^verbatim>\<open>subprocess.run\<close>,
  \<^verbatim>\<open>os.path.exists\<close>, the logger and \<^verbatim>\<open>asyncio.sleep\<close> under
  \<^verbatim>\<open>asyncio.timeout\<close>. The embedding makes these effects explicit: every function
  takes a state (the loop clock and the trace of effects performed so far) and returns the
  value or the exception it raises together with the new state. What an external command or
  a file-system check answers, and how long the call blocks, is given by an environment that
  may depend on everything that happened before.
\<close>

subsection \<open>Exceptions\<close>

text \<open>
  The f-strings of \<^verbatim>\<open>add_system_user\<close> interpolate a list (\<^verbatim>\<open>{user_add_cmd}\<close>) and an
  exception (\<^verbatim>\<open>{e}\<close>); a message is kept as its sequence of pieces. \<^verbatim>\<open>TimeoutError\<close>
  carries the argument tuple it was raised with.
\<close>

datatype exn =
    OSError string
  | CalledProcessError "string list" int string string
  | ValueError string
  | CancelledError
  | TimeoutError "string list"
  | RuntimeError "fragment list"
and fragment =
    Text string
  | Repr "string list"
  | Str exn

subsection \<open>The outside world\<close>

text \<open>
  \<open>CannotLaunch\<close>: the executable could not be started (\<^verbatim>\<open>subprocess.run\<close> raises
  \<^verbatim>\<open>OSError\<close>); \<open>Exited\<close>: it ran, with its return code and captured output.
\<close>

datatype launch =
    CannotLaunch string
  | Exited int string string

datatype completed_process =
  CompletedProcess (returncode: int) (stdout: string) (stderr: string)

datatype event =
    Run "string list" launch
  | Exists string bool
  | Warning string
  | Slept rat

record state =
  now :: rat
  trace :: "event list"

text \<open>
  The environment: the outcome of launching a command and of a file-system check, each with
  the time (in seconds) the blocking call takes. Both may depend on the clock and on the trace.
\<close>

record os =
  spawn :: "state \<Rightarrow> string list \<Rightarrow> launch \<times> rat"
  stat :: "state \<Rightarrow> string \<Rightarrow> bool \<times> rat"

record config =
  max_add_user_retry :: int
  default_group :: string
  keytab_path :: string
  keytab_principal :: string
  user_add_cmd :: string
  pre_spawn_timeout :: int

record user =
  name :: string

text \<open>
  Of the spawner the module reads \<^verbatim>\<open>last_activity\<close> (a timestamp or \<^verbatim>\<open>None\<close>) and
  whether it is a \<^verbatim>\<open>SlurmSpawner\<close>.
\<close>

record spawner =
  last_activity :: "rat option"
  is_SlurmSpawner :: bool

subsection \<open>Library calls\<close>

text \<open>A blocking call holds the event loop for its whole duration; time never runs backwards.\<close>

definition elapse :: "rat \<Rightarrow> state \<Rightarrow> state" where
  "elapse d st = st\<lparr>now := now st + max 0 d\<rparr>"

definition record_event :: "event \<Rightarrow> state \<Rightarrow> state" where
  "record_event e st = st\<lparr>trace := trace st @ [e]\<rparr>"

text \<open>
  \<^verbatim>\<open>subprocess.run(argv, check=check, capture_output=True)\<close>. An argument that contains
  a NUL character is refused with \<^verbatim>\<open>ValueError\<close> before any process is started; otherwise
  the environment decides whether the process starts and how it exits.
\<close>

definition has_nul :: "string list \<Rightarrow> bool" where
  "has_nul argv = list_ex (\<lambda>a. CHR 0x00 \<in> set a) argv"

definition subprocess_run ::
  "os \<Rightarrow> string list \<Rightarrow> bool \<Rightarrow> state \<Rightarrow> (exn + completed_process) \<times> state" where
  "subprocess_run env argv check st =
     (if has_nul argv then (Inl (ValueError ''embedded null byte''), st)
      else
        (case spawn env st argv of
           (outcome, d) \<Rightarrow>
             (let st1 = record_event (Run argv outcome) (elapse d st) in
              case outcome of
                CannotLaunch msg \<Rightarrow> (Inl (OSError msg), st1)
              | Exited rc out err \<Rightarrow>
                  if check \<and> rc \<noteq> 0 then (Inl (CalledProcessError argv rc out err), st1)
                  else (Inr (CompletedProcess rc out err), st1))))"

text \<open>\<^verbatim>\<open>path.exists(p)\<close>\<close>

definition path_exists :: "os \<Rightarrow> string \<Rightarrow> state \<Rightarrow> bool \<times> state" where
  "path_exists env p st =
     (case stat env st p of
        (found, d) \<Rightarrow> (found, record_event (Exists p found) (elapse d st)))"

text \<open>\<^verbatim>\<open>self.log.warning(msg)\<close>\<close>

definition log_warning :: "string \<Rightarrow> state \<Rightarrow> state" where
  "log_warning msg st = record_event (Warning msg) st"

text \<open>
  \<^verbatim>\<open>await asyncio.sleep(delay)\<close> inside \<^verbatim>\<open>asyncio.timeout\<close> with the given deadline.
  The task is suspended; the timeout's callback, scheduled for the deadline, cancels it if the
  deadline comes no later than the end of the sleep (also when the deadline has already
  passed while a blocking call held the loop: then the cancellation is delivered at once).
\<close>

definition asyncio_sleep :: "rat \<Rightarrow> rat \<Rightarrow> state \<Rightarrow> (exn + unit) \<times> state" where
  "asyncio_sleep deadline delay st =
     (if deadline \<le> now st + delay then (Inl CancelledError, st\<lparr>now := max deadline (now st)\<rparr>)
      else (Inr (), record_event (Slept delay) (st\<lparr>now := now st + delay\<rparr>)))"

text \<open>
  \<^verbatim>\<open>async with asyncio.timeout(delay): body\<close>. The deadline is fixed on entry as
  \<^verbatim>\<open>loop.time() + delay\<close>; on exit a cancellation caused by the timeout is turned into
  \<^verbatim>\<open>TimeoutError\<close>, raised without arguments. A body that never suspends is never cancelled.
\<close>

definition asyncio_timeout ::
  "int \<Rightarrow> (rat \<Rightarrow> state \<Rightarrow> (exn + 'a) \<times> state) \<Rightarrow> state \<Rightarrow> (exn + 'a) \<times> state" where
  "asyncio_timeout delay body st =
     (case body (now st + of_int delay) st of
        (Inl CancelledError, st') \<Rightarrow> (Inl (TimeoutError []), st')
      | (r, st') \<Rightarrow> (r, st'))"

subsection \<open>\<^verbatim>\<open>shlex.split\<close>\<close>

text \<open>
  The standard library's lexer in the mode \<^verbatim>\<open>shlex.split(s)\<close> uses: POSIX rules,
  \<^verbatim>\<open>whitespace_split\<close> on, no comment characters. \<open>Blank\<close>, \<open>Word\<close>, \<open>Quote q\<close> and
  \<open>Escape back\<close> are the lexer's states \<^verbatim>\<open>' '\<close>, \<^verbatim>\<open>'a'\<close>, an open quote and
  the state after a backslash (with the state to return to).
\<close>

datatype lexstate = Blank | Word | Quote char | Escape lexstate

definition whitespace :: "char set" where
  "whitespace = {CHR '' '', CHR 0x09, CHR 0x0D, CHR 0x0A}"

definition quotes :: "char set" where
  "quotes = {CHR 0x27, CHR 0x22}"

definition backslash :: char where
  "backslash = CHR 0x5C"

fun is_quote_state :: "lexstate \<Rightarrow> bool" where
  "is_quote_state (Quote q) = True"
| "is_quote_state _ = False"

fun read_tokens :: "lexstate \<Rightarrow> bool \<Rightarrow> string \<Rightarrow> string list \<Rightarrow> string \<Rightarrow> exn + string list" where
  "read_tokens Blank quoted tok acc [] = Inr acc"
| "read_tokens Blank quoted tok acc (c # cs) =
     (if c \<in> whitespace then read_tokens Blank quoted tok acc cs
      else if c = backslash then read_tokens (Escape Word) quoted tok acc cs
      else if c \<in> quotes then read_tokens (Quote c) True tok acc cs
      else read_tokens Word quoted [c] acc cs)"
| "read_tokens (Quote q) quoted tok acc [] = Inl (ValueError ''No closing quotation'')"
| "read_tokens (Quote q) quoted tok acc (c # cs) =
     (if c = q then read_tokens Word True tok acc cs
      else if c = backslash \<and> q = CHR 0x22 then read_tokens (Escape (Quote q)) True tok acc cs
      else read_tokens (Quote q) True (tok @ [c]) acc cs)"
| "read_tokens (Escape back) quoted tok acc [] = Inl (ValueError ''No escaped character'')"
| "read_tokens (Escape back) quoted tok acc (c # cs) =
     (if is_quote_state back \<and> c \<noteq> backslash \<and> Quote c \<noteq> back
      then read_tokens back quoted (tok @ [backslash, c]) acc cs
      else read_tokens back quoted (tok @ [c]) acc cs)"
| "read_tokens Word quoted tok acc [] = Inr (if tok \<noteq> [] \<or> quoted then acc @ [tok] else acc)"
| "read_tokens Word quoted tok acc (c # cs) =
     (if c \<in> whitespace then
        (if tok \<noteq> [] \<or> quoted then read_tokens Blank False [] (acc @ [tok]) cs
         else read_tokens Blank quoted tok acc cs)
      else if c \<in> quotes then read_tokens (Quote c) True tok acc cs
      else if c = backslash then read_tokens (Escape Word) quoted tok acc cs
      else read_tokens Word quoted (tok @ [c]) acc cs)"

definition shlex_split :: "string \<Rightarrow> exn + string list" where
  "shlex_split s = read_tokens Blank False [] [] s"

subsection \<open>\<^verbatim>\<open>kerberos_ticket\<close>\<close>

definition kinit_cmd :: "config \<Rightarrow> string list" where
  "kinit_cmd self = [''kinit'', ''-kt'', keytab_path self, ''-p'', keytab_principal self]"

definition kdestroy_cmd :: "config \<Rightarrow> string list" where
  "kdestroy_cmd self = [''kdestroy'', ''-p'', keytab_principal self]"

text \<open>
  The context manager around a body: \<^verbatim>\<open>kinit\<close> before the \<^verbatim>\<open>try\<close>, the body at the
  \<^verbatim>\<open>yield\<close>, \<^verbatim>\<open>kdestroy\<close> in the \<^verbatim>\<open>finally\<close>. Neither call checks the return code.
  An \<^verbatim>\<open>OSError\<close> of \<^verbatim>\<open>kinit\<close> leaves before the \<^verbatim>\<open>try\<close>; one of
  \<^verbatim>\<open>kdestroy\<close> replaces whatever the body returned or raised.
\<close>

definition kerberos_ticket ::
  "config \<Rightarrow> os \<Rightarrow> (state \<Rightarrow> (exn + 'a) \<times> state) \<Rightarrow> state \<Rightarrow> (exn + 'a) \<times> state" where
  "kerberos_ticket self env body st =
     (case subprocess_run env (kinit_cmd self) False st of
        (Inl e, st1) \<Rightarrow> (Inl e, st1)
      | (Inr _, st1) \<Rightarrow>
          (case body st1 of
             (r, st2) \<Rightarrow>
               (case subprocess_run env (kdestroy_cmd self) False st2 of
                  (Inl e, st3) \<Rightarrow> (Inl e, st3)
                | (Inr _, st3) \<Rightarrow> (r, st3))))"

subsection \<open>\<^verbatim>\<open>system_user_exists\<close>\<close>

definition user_show_cmd :: "user \<Rightarrow> string list" where
  "user_show_cmd u = [''ipa'', ''user-show'', name u]"

definition system_user_exists :: "config \<Rightarrow> os \<Rightarrow> user \<Rightarrow> state \<Rightarrow> (exn + bool) \<times> state" where
  "system_user_exists self env u st =
     (case kerberos_ticket self env (subprocess_run env (user_show_cmd u) False) st of
        (Inl e, st') \<Rightarrow> (Inl e, st')
      | (Inr process, st') \<Rightarrow> (Inr (returncode process = 0), st'))"

subsection \<open>\<^verbatim>\<open>add_system_user\<close>\<close>

text \<open>Lines 85 to 87: the command line that is run.\<close>

definition build_user_add_cmd :: "config \<Rightarrow> user \<Rightarrow> exn + string list" where
  "build_user_add_cmd self u =
     (case shlex_split (user_add_cmd self) of
        Inl e \<Rightarrow> Inl e
      | Inr tokens \<Rightarrow>
          (let cmd = tokens @ [name u] in
           if default_group self \<noteq> [] then Inr (cmd @ [''--group'', default_group self])
           else Inr cmd))"

definition could_not_call :: "user \<Rightarrow> string list \<Rightarrow> exn \<Rightarrow> exn" where
  "could_not_call u cmd e =
     RuntimeError [Text ''Failed to create FreeIPA user '', Text (name u),
       Text '' - could not call '', Repr cmd, Text '': '', Str e]"

definition returned_with_an_error :: "user \<Rightarrow> string list \<Rightarrow> exn \<Rightarrow> exn" where
  "returned_with_an_error u cmd e =
     RuntimeError [Text ''Failed to create FreeIPA user '', Text (name u),
       Text '' - '', Repr cmd, Text '' returned with an error: '', Str e]"

definition add_system_user :: "config \<Rightarrow> os \<Rightarrow> user \<Rightarrow> state \<Rightarrow> (exn + unit) \<times> state" where
  "add_system_user self env u st =
     (case build_user_add_cmd self u of
        Inl e \<Rightarrow> (Inl e, st)
      | Inr cmd \<Rightarrow>
          (case kerberos_ticket self env (subprocess_run env cmd True) st of
             (Inl (OSError m), st') \<Rightarrow> (Inl (could_not_call u cmd (OSError m)), st')
           | (Inl (CalledProcessError c rc out err), st') \<Rightarrow>
               (Inl (returned_with_an_error u cmd (CalledProcessError c rc out err)), st')
           | (Inl e, st') \<Rightarrow> (Inl e, st')
           | (Inr _, st') \<Rightarrow> (Inr (), st')))"

subsection \<open>\<^verbatim>\<open>pre_spawn_start\<close>\<close>

definition home_of :: "user \<Rightarrow> string" where
  "home_of u = ''/home/'' @ name u"

definition home_missing :: "user \<Rightarrow> string" where
  "home_missing u = ''Home folder for '' @ name u @ '' is missing''"

definition sacctmgr_cmd :: "user \<Rightarrow> string list" where
  "sacctmgr_cmd u = [''sacctmgr'', ''show'', ''user'', ''-n'', name u]"

definition account_missing :: "user \<Rightarrow> string" where
  "account_missing u = ''Slurm account for '' @ name u @ '' is missing''"

text \<open>Lines 76 to 78: the first \<^verbatim>\<open>while\<close> loop.\<close>

function wait_home :: "os \<Rightarrow> rat \<Rightarrow> user \<Rightarrow> state \<Rightarrow> (exn + unit) \<times> state" where
  "wait_home env deadline u st =
     (case path_exists env (home_of u) st of
        (True, st1) \<Rightarrow> (Inr (), st1)
      | (False, st1) \<Rightarrow>
          (case asyncio_sleep deadline 1 (log_warning (home_missing u) st1) of
             (Inl e, st2) \<Rightarrow> (Inl e, st2)
           | (Inr _, st2) \<Rightarrow> wait_home env deadline u st2))"
  by pat_completeness auto



termination wait_home
proof (relation "measure (\<lambda>(env, deadline, u, st). nat \<lceil>deadline - now st\<rceil>)", goal_cases)
  case 1
  show ?case by simp
next
  case 2
  have closer: "\<lceil>d - (n + x + 1)\<rceil> < \<lceil>d - n\<rceil>" if "0 \<le> x" for d n x :: rat
  proof -
    have "d - (n + x + 1) \<le> (d - n) - 1" using that by simp
    then have "\<lceil>d - (n + x + 1)\<rceil> \<le> \<lceil>(d - n) - 1\<rceil>" by (rule ceiling_mono)
    then show ?thesis by simp
  qed
  from 2 show ?case
    by (auto simp: path_exists_def log_warning_def record_event_def elapse_def asyncio_sleep_def
        closer split: prod.splits if_splits)
qed

text \<open>
  Lines 80 to 82: the second \<^verbatim>\<open>while\<close> loop. \<^verbatim>\<open>subprocess.run\<close> is called
  without \<^verbatim>\<open>check\<close>; only the captured standard output is looked at.
\<close>

function wait_slurm :: "os \<Rightarrow> rat \<Rightarrow> user \<Rightarrow> state \<Rightarrow> (exn + unit) \<times> state" where
  "wait_slurm env deadline u st =
     (case subprocess_run env (sacctmgr_cmd u) False st of
        (Inl e, st1) \<Rightarrow> (Inl e, st1)
      | (Inr process, st1) \<Rightarrow>
          if length (stdout process) = 0 then
            (case asyncio_sleep deadline 1 (log_warning (account_missing u) st1) of
               (Inl e, st2) \<Rightarrow> (Inl e, st2)
             | (Inr _, st2) \<Rightarrow> wait_slurm env deadline u st2)
          else (Inr (), st1))"
  by pat_completeness auto

termination wait_slurm
proof (relation "measure (\<lambda>(env, deadline, u, st). nat \<lceil>deadline - now st\<rceil>)", goal_cases)
  case 1
  show ?case by simp
next
  case 2
  have closer: "\<lceil>d - (n + x + 1)\<rceil> < \<lceil>d - n\<rceil>" if "0 \<le> x" for d n x :: rat
  proof -
    have "d - (n + x + 1) \<le> (d - n) - 1" using that by simp
    then have "\<lceil>d - (n + x + 1)\<rceil> \<le> \<lceil>(d - n) - 1\<rceil>" by (rule ceiling_mono)
    then show ?thesis by simp
  qed
  from 2 show ?case
    by (auto simp: subprocess_run_def log_warning_def record_event_def elapse_def asyncio_sleep_def
        closer Let_def split: prod.splits if_splits launch.splits)
qed

declare wait_home.simps [simp del] wait_slurm.simps [simp del]

text \<open>Lines 75 to 82: the body of the \<^verbatim>\<open>async with\<close>, under the deadline of the timeout.\<close>

definition wait_conditions ::
  "os \<Rightarrow> user \<Rightarrow> spawner \<Rightarrow> rat \<Rightarrow> state \<Rightarrow> (exn + unit) \<times> state" where
  "wait_conditions env u sp deadline st =
     (case wait_home env deadline u st of
        (Inl e, st1) \<Rightarrow> (Inl e, st1)
      | (Inr _, st1) \<Rightarrow>
          if is_SlurmSpawner sp then wait_slurm env deadline u st1 else (Inr (), st1))"

text \<open>\<^verbatim>\<open>not spawner.last_activity\<close> holds exactly when there is no timestamp.\<close>

definition pre_spawn_start ::
  "config \<Rightarrow> os \<Rightarrow> user \<Rightarrow> spawner \<Rightarrow> state \<Rightarrow> (exn + unit) \<times> state" where
  "pre_spawn_start self env u sp st =
     (if last_activity sp = None
      then asyncio_timeout (pre_spawn_timeout self) (wait_conditions env u sp) st
      else (Inr (), st))"

subsection \<open>The pre-creation hook\<close>

text \<open>
  Modelled from the spec: the pre-creation hook (Hook A of section 4.4 of the specification).
  The module does not define it: the class inherits \<^verbatim>\<open>add_user\<close> from JupyterHub's
  \<^verbatim>\<open>LocalAuthenticator\<close>, which is not among the sources. In the spec's words: if
  \<^verbatim>\<open>userExists(identity.name)\<close> is false, call \<^verbatim>\<open>createUser\<close>; propagate any error to
  the caller unchanged.
\<close>

definition pre_creation_hook :: "config \<Rightarrow> os \<Rightarrow> user \<Rightarrow> state \<Rightarrow> (exn + unit) \<times> state" where
  "pre_creation_hook self env u st =
     (case system_user_exists self env u st of
        (Inl e, st1) \<Rightarrow> (Inl e, st1)
      | (Inr found, st1) \<Rightarrow>
          if found then (Inr (), st1) else add_system_user self env u st1)"

subsection \<open>Reading traces\<close>

text \<open>What a call added to the trace.\<close>

definition new_events :: "state \<Rightarrow> state \<Rightarrow> event list" where
  "new_events st st' = drop (length (trace st)) (trace st')"

fun is_run_of :: "string list \<Rightarrow> event \<Rightarrow> bool" where
  "is_run_of argv (Run a outcome) = (a = argv)"
| "is_run_of argv _ = False"

definition count_run :: "string list \<Rightarrow> event list \<Rightarrow> nat" where
  "count_run argv events = length (filter (is_run_of argv) events)"

fun launched :: "launch \<Rightarrow> bool" where
  "launched (Exited rc out err) = True"
| "launched (CannotLaunch m) = False"

text \<open>
  Rounds of the first and of the second loop of \<^verbatim>\<open>pre_spawn_start\<close>: a check that finds
  the condition unsatisfied (no home directory; a scheduler query that prints nothing), the
  warning about it, and one sleep of one second. And the number of completed sleeps in a trace.
\<close>

fun home_rounds :: "user \<Rightarrow> event list \<Rightarrow> bool" where
  "home_rounds u [] = True"
| "home_rounds u (Exists p found # Warning msg # Slept d # es) =
     (p = home_of u \<and> \<not> found \<and> msg = home_missing u \<and> d = 1 \<and> home_rounds u es)"
| "home_rounds u es = False"

fun account_rounds :: "user \<Rightarrow> event list \<Rightarrow> bool" where
  "account_rounds u [] = True"
| "account_rounds u (Run argv (Exited rc out err) # Warning msg # Slept d # es) =
     (argv = sacctmgr_cmd u \<and> out = [] \<and> msg = account_missing u \<and> d = 1 \<and> account_rounds u es)"
| "account_rounds u es = False"

fun is_slept :: "event \<Rightarrow> bool" where
  "is_slept (Slept d) = True"
| "is_slept _ = False"

definition sleeps :: "event list \<Rightarrow> nat" where
  "sleeps events = length (filter is_slept events)"

subsection \<open>Concrete inputs\<close>

text \<open>The configuration with the defaults of the traits (lines 22 to 48).\<close>

definition defaults :: config where
  "defaults = \<lparr>max_add_user_retry = 10, default_group = ''def-sponsor00'',
     keytab_path = ''/etc/jupyterhub/jupyterhub.keytab'',
     keytab_principal = ''jupyterhub/jupyterhub'',
     user_add_cmd = ''ipa_create_user.py'', pre_spawn_timeout = 30\<rparr>"

definition alice :: user where
  "alice = \<lparr>name = ''alice''\<rparr>"

definition boot :: state where
  "boot = \<lparr>now = 0, trace = []\<rparr>"

text \<open>Every command starts and exits with status 1; no path exists.\<close>

definition failing_tools :: os where
  "failing_tools = \<lparr>spawn = (\<lambda>st argv. (Exited 1 [] ''error'', 0)), stat = (\<lambda>st p. (False, 0))\<rparr>"



text \<open>A spawner that has been active before, and one that has not, of either kind.\<close>

definition seen_before :: spawner where
  "seen_before = \<lparr>last_activity = Some 1700000000, is_SlurmSpawner = True\<rparr>"

definition first_local :: spawner where
  "first_local = \<lparr>last_activity = None, is_SlurmSpawner = False\<rparr>"

definition first_slurm :: spawner where
  "first_slurm = \<lparr>last_activity = None, is_SlurmSpawner = True\<rparr>"

text \<open>
  A directory that knows \<^verbatim>\<open>alice\<close> once the command that creates her has succeeded.
\<close>

definition create_alice :: "string list" where
  "create_alice = [''ipa_create_user.py'', ''alice'', ''--group'', ''def-sponsor00'']"

definition directory :: os where
  "directory = \<lparr>spawn = (\<lambda>st argv.
       if argv = [''ipa'', ''user-show'', ''alice'']
       then (if Run create_alice (Exited 0 [] []) \<in> set (trace st)
             then (Exited 0 ''alice'' [], 0) else (Exited 2 [] ''alice: user not found'', 0))
       else (Exited 0 [] [], 0)),
     stat = (\<lambda>st p. (False, 0))\<rparr>"

text \<open>
  A timeout of two seconds, and three environments: the home directory never appears; it is
  there but the scheduler never lists the account; every look at the file system takes five seconds.
\<close>

definition short :: config where
  "short = defaults\<lparr>pre_spawn_timeout := 2\<rparr>"

definition no_home :: os where
  "no_home = \<lparr>spawn = (\<lambda>st argv. (Exited 0 [] [], 0)), stat = (\<lambda>st p. (False, 0))\<rparr>"


definition slow_disk :: os where
  "slow_disk = \<lparr>spawn = (\<lambda>st argv. (Exited 0 [] [], 0)), stat = (\<lambda>st p. (False, 5))\<rparr>"

text \<open>The home directory appears one second after the start; the account never does.\<close>

definition late_home :: os where
  "late_home = \<lparr>spawn = (\<lambda>st argv. (Exited 0 [] [], 0)), stat = (\<lambda>st p. (1 \<le> now st, 0))\<rparr>"



section \<open>Properties\<close>

subsection \<open>Running a command\<close>

lemmas run_defs = subprocess_run_def has_nul_def record_event_def elapse_def Let_def
lemmas example_defs = failing_tools_def boot_def defaults_def alice_def kinit_cmd_def kdestroy_cmd_def

lemma subprocess_run_nul:
  assumes "has_nul argv"
  shows "subprocess_run env argv chk st = (Inl (ValueError ''embedded null byte''), st)"
  using assms by (simp add: subprocess_run_def)

lemma subprocess_run_eq:
  assumes "\<not> has_nul argv" and "spawn env st argv = (outcome, d)"
  shows "subprocess_run env argv chk st =
    ((case outcome of
        CannotLaunch m \<Rightarrow> Inl (OSError m)
      | Exited rc out err \<Rightarrow>
          if chk \<and> rc \<noteq> 0 then Inl (CalledProcessError argv rc out err)
          else Inr (CompletedProcess rc out err)),
     record_event (Run argv outcome) (elapse d st))"
  using assms by (cases outcome) (simp_all add: subprocess_run_def Let_def)

lemma subprocess_run_launched:
  assumes "\<not> has_nul argv" and "fst (spawn env st argv) = Exited rc out err"
  shows "subprocess_run env argv chk st =
    (if chk \<and> rc \<noteq> 0 then Inl (CalledProcessError argv rc out err)
     else Inr (CompletedProcess rc out err),
     record_event (Run argv (Exited rc out err)) (elapse (snd (spawn env st argv)) st))"
  using assms by (cases "spawn env st argv") (auto simp: subprocess_run_def Let_def)

lemma trace_subprocess_run:
  assumes "\<not> has_nul argv"
  shows "trace (snd (subprocess_run env argv chk st)) = trace st @ [Run argv (fst (spawn env st argv))]"
  using assms
  by (simp add: subprocess_run_def record_event_def elapse_def Let_def
      split: prod.splits launch.splits)

text \<open>What a call without \<^verbatim>\<open>check\<close> did, read off its result.\<close>

lemma subprocess_run_effect:
  assumes "subprocess_run env argv False st = (x, st1)"
  shows "now st \<le> now st1 \<and>
    (case x of
       Inl e \<Rightarrow>
         (has_nul argv \<and> e = ValueError ''embedded null byte'' \<and> st1 = st)
       \<or> (\<not> has_nul argv \<and> (\<exists>m. e = OSError m \<and> trace st1 = trace st @ [Run argv (CannotLaunch m)]))
     | Inr p \<Rightarrow> \<not> has_nul argv
         \<and> trace st1 = trace st @ [Run argv (Exited (returncode p) (stdout p) (stderr p))])"
proof (cases "has_nul argv")
  case True
  with subprocess_run_nul [OF True, of env False st] assms show ?thesis by simp
next
  case False
  obtain c d where sp: "spawn env st argv = (c, d)" by (cases "spawn env st argv")
  from subprocess_run_eq [OF False sp, of False] assms False show ?thesis
    by (cases c) (auto simp: record_event_def elapse_def)
qed

lemma kdestroy_no_nul:
  assumes "\<not> has_nul (kinit_cmd self)"
  shows "\<not> has_nul (kdestroy_cmd self)"
  using assms by (simp add: has_nul_def kinit_cmd_def kdestroy_cmd_def)

subsection \<open>The credential scope\<close>

text \<open>
  Claim C1. Whenever the acquisition step ran (the call that runs \<^verbatim>\<open>kinit\<close> returned,
  whatever the exit status), the release step runs exactly once after the wrapped body, on
  every exit path: the body is arbitrary, so it may complete normally, return an error result
  or raise. The trace of the whole scope is the trace up to the end of the body followed by one
  single run of the \<^verbatim>\<open>kdestroy\<close> command, so the number of runs of that command grows by
  exactly one.
\<close>

theorem release_exactly_once:
  assumes "fst (subprocess_run env (kinit_cmd self) False st) = Inr p"
  shows "let st1 = snd (subprocess_run env (kinit_cmd self) False st);
             st2 = snd (body st1);
             st3 = snd (kerberos_ticket self env body st)
         in trace st3 = trace st2 @ [Run (kdestroy_cmd self) (fst (spawn env st2 (kdestroy_cmd self)))]
          \<and> count_run (kdestroy_cmd self) (trace st3) = count_run (kdestroy_cmd self) (trace st2) + 1"
proof -
  define st1 where "st1 = snd (subprocess_run env (kinit_cmd self) False st)"
  define st2 where "st2 = snd (body st1)"
  have acquired: "subprocess_run env (kinit_cmd self) False st = (Inr p, st1)"
    using assms by (cases "subprocess_run env (kinit_cmd self) False st") (simp add: st1_def)
  from subprocess_run_effect [OF acquired] have "\<not> has_nul (kinit_cmd self)" by simp
  then have clean: "\<not> has_nul (kdestroy_cmd self)" by (rule kdestroy_no_nul)
  have "snd (kerberos_ticket self env body st) = snd (subprocess_run env (kdestroy_cmd self) False st2)"
    by (simp add: kerberos_ticket_def acquired st2_def split: prod.splits sum.splits)
  then have "trace (snd (kerberos_ticket self env body st))
      = trace st2 @ [Run (kdestroy_cmd self) (fst (spawn env st2 (kdestroy_cmd self)))]"
    by (simp add: trace_subprocess_run [OF clean])
  then show ?thesis
    by (simp add: Let_def st1_def st2_def count_run_def)
qed

theorem release_exactly_once_witness:
  "fst (subprocess_run failing_tools (kinit_cmd defaults) False boot)
     = Inr (CompletedProcess 1 [] ''error'')
   \<and> fst (kerberos_ticket defaults failing_tools (subprocess_run failing_tools [''false''] True) boot)
       = Inl (CalledProcessError [''false''] 1 [] ''error'')
   \<and> count_run (kdestroy_cmd defaults)
        (trace (snd (kerberos_ticket defaults failing_tools
           (subprocess_run failing_tools [''false''] True) boot))) = 1"
  using release_exactly_once [of failing_tools defaults boot "CompletedProcess 1 [] ''error''"
      "subprocess_run failing_tools [''false''] True"]
  by (simp add: example_defs kerberos_ticket_def run_defs count_run_def)

text \<open>
  Claim C10. The release step does not look at the exit status of \<^verbatim>\<open>kdestroy\<close>: if
  the acquisition step ran and \<^verbatim>\<open>kdestroy\<close> was started, then for every exit status of
  \<^verbatim>\<open>kdestroy\<close> the scope returns exactly what the body returned, or raises exactly what the
  body raised, and the last effect before control returns to the caller is the run of
  \<^verbatim>\<open>kdestroy\<close>.
\<close>

theorem release_status_ignored:
  assumes "fst (subprocess_run env (kinit_cmd self) False st) = Inr p"
    and "st1 = snd (subprocess_run env (kinit_cmd self) False st)"
    and "fst (spawn env (snd (body st1)) (kdestroy_cmd self)) = Exited rc out err"
  shows "fst (kerberos_ticket self env body st) = fst (body st1)
       \<and> last (trace (snd (kerberos_ticket self env body st)))
           = Run (kdestroy_cmd self) (Exited rc out err)"
proof -
  have acquired: "subprocess_run env (kinit_cmd self) False st = (Inr p, st1)"
    using assms(1,2) by (cases "subprocess_run env (kinit_cmd self) False st") simp
  from subprocess_run_effect [OF acquired] have "\<not> has_nul (kinit_cmd self)" by simp
  then have clean: "\<not> has_nul (kdestroy_cmd self)" by (rule kdestroy_no_nul)
  obtain r st2 where body: "body st1 = (r, st2)" by (cases "body st1")
  have released: "subprocess_run env (kdestroy_cmd self) False st2
      = (Inr (CompletedProcess rc out err),
         record_event (Run (kdestroy_cmd self) (Exited rc out err))
           (elapse (snd (spawn env st2 (kdestroy_cmd self))) st2))"
    using subprocess_run_launched [OF clean, of env st2 rc out err False] assms(3) body
    by simp
  show ?thesis
    by (simp add: kerberos_ticket_def acquired body released record_event_def)
qed

theorem release_status_ignored_witness:
  "fst (subprocess_run failing_tools (kinit_cmd defaults) False boot)
     = Inr (CompletedProcess 1 [] ''error'')
   \<and> fst (spawn failing_tools
        (snd (subprocess_run failing_tools [''false''] True
           (snd (subprocess_run failing_tools (kinit_cmd defaults) False boot))))
        (kdestroy_cmd defaults)) = Exited 1 [] ''error''
   \<and> fst (kerberos_ticket defaults failing_tools (subprocess_run failing_tools [''false''] True) boot)
       = Inl (CalledProcessError [''false''] 1 [] ''error'')
   \<and> last (trace (snd (kerberos_ticket defaults failing_tools
        (subprocess_run failing_tools [''false''] True) boot)))
       = Run (kdestroy_cmd defaults) (Exited 1 [] ''error'')"
  using release_status_ignored [of failing_tools defaults boot "CompletedProcess 1 [] ''error''"
      "snd (subprocess_run failing_tools (kinit_cmd defaults) False boot)"
      "subprocess_run failing_tools [''false''] True" 1 "[]" "''error''"]
  by (simp add: example_defs kerberos_ticket_def run_defs)

lemma new_events_append:
  assumes "trace st' = trace st @ ev"
  shows "new_events st st' = ev"
  using assms by (simp add: new_events_def)

text \<open>The scope around any body: the three ways it can go.\<close>

lemma kerberos_ticket_shape:
  assumes "kerberos_ticket self env body st = (r, st')"
  shows "(has_nul (kinit_cmd self) \<and> st' = st \<and> r = Inl (ValueError ''embedded null byte''))
    \<or> (\<not> has_nul (kinit_cmd self)
        \<and> (\<exists>m. trace st' = trace st @ [Run (kinit_cmd self) (CannotLaunch m)] \<and> r = Inl (OSError m)))
    \<or> (\<not> has_nul (kinit_cmd self)
        \<and> (\<exists>k d st1 st2 rb. launched k \<and> trace st1 = trace st @ [Run (kinit_cmd self) k]
              \<and> body st1 = (rb, st2) \<and> trace st' = trace st2 @ [Run (kdestroy_cmd self) d]
              \<and> r = (case d of CannotLaunch m \<Rightarrow> Inl (OSError m) | Exited a b c \<Rightarrow> rb)))"
proof -
  obtain x st1 where acq: "subprocess_run env (kinit_cmd self) False st = (x, st1)"
    by (cases "subprocess_run env (kinit_cmd self) False st")
  note eff = subprocess_run_effect [OF acq]
  show ?thesis
  proof (cases x)
    case (Inl e)
    with acq assms have "r = Inl e" "st' = st1" by (simp_all add: kerberos_ticket_def)
    with eff Inl show ?thesis by auto
  next
    case (Inr p)
    with eff have clean: "\<not> has_nul (kinit_cmd self)"
      and t1: "trace st1 = trace st @ [Run (kinit_cmd self) (Exited (returncode p) (stdout p) (stderr p))]"
      by simp_all
    obtain rb st2 where body: "body st1 = (rb, st2)" by (cases "body st1")
    obtain y st3 where rel: "subprocess_run env (kdestroy_cmd self) False st2 = (y, st3)"
      by (cases "subprocess_run env (kdestroy_cmd self) False st2")
    note eff3 = subprocess_run_effect [OF rel]
    have res: "r = (case y of Inl e \<Rightarrow> Inl e | Inr q \<Rightarrow> rb)" "st' = st3"
      using assms acq Inr body rel by (simp_all add: kerberos_ticket_def split: sum.splits)
    have "\<exists>d. trace st3 = trace st2 @ [Run (kdestroy_cmd self) d]
        \<and> (case y of Inl e \<Rightarrow> Inl e | Inr q \<Rightarrow> rb)
          = (case d of CannotLaunch m \<Rightarrow> Inl (OSError m) | Exited a b c \<Rightarrow> rb)"
    proof (cases y)
      case yl: (Inl e)
      with eff3 kdestroy_no_nul [OF clean] obtain m where "e = OSError m"
        "trace st3 = trace st2 @ [Run (kdestroy_cmd self) (CannotLaunch m)]" by auto
      with yl show ?thesis by (intro exI [of _ "CannotLaunch m"]) simp
    next
      case yr: (Inr q)
      with eff3 have "trace st3 = trace st2
          @ [Run (kdestroy_cmd self) (Exited (returncode q) (stdout q) (stderr q))]" by simp
      with yr show ?thesis
        by (intro exI [of _ "Exited (returncode q) (stdout q) (stderr q)"]) simp
    qed
    then obtain d where d: "trace st3 = trace st2 @ [Run (kdestroy_cmd self) d]"
      "(case y of Inl e \<Rightarrow> Inl e | Inr q \<Rightarrow> rb)
          = (case d of CannotLaunch m \<Rightarrow> Inl (OSError m) | Exited a b c \<Rightarrow> rb)" by blast
    have "launched (Exited (returncode p) (stdout p) (stderr p))" by simp
    with clean t1 body d res show ?thesis by blast
  qed
qed

text \<open>One command as the body of the scope.\<close>

lemma run_body:
  assumes "subprocess_run env cmd chk st1 = (rb, st2)"
  shows "(has_nul cmd \<and> st2 = st1 \<and> rb = Inl (ValueError ''embedded null byte''))
    \<or> (\<not> has_nul cmd \<and> (\<exists>c. trace st2 = trace st1 @ [Run cmd c]
          \<and> rb = (case c of
                    CannotLaunch m \<Rightarrow> Inl (OSError m)
                  | Exited rc out err \<Rightarrow>
                      if chk \<and> rc \<noteq> 0 then Inl (CalledProcessError cmd rc out err)
                      else Inr (CompletedProcess rc out err))))"
proof (cases "has_nul cmd")
  case True
  with subprocess_run_nul [OF True, of env chk st1] assms show ?thesis by simp
next
  case False
  obtain c d where sp: "spawn env st1 cmd = (c, d)" by (cases "spawn env st1 cmd")
  from subprocess_run_eq [OF False sp, of chk] assms
  have "rb = (case c of
                CannotLaunch m \<Rightarrow> Inl (OSError m)
              | Exited rc out err \<Rightarrow>
                  if chk \<and> rc \<noteq> 0 then Inl (CalledProcessError cmd rc out err)
                  else Inr (CompletedProcess rc out err))"
    "trace st2 = trace st1 @ [Run cmd c]"
    by (simp_all add: record_event_def elapse_def)
  with False show ?thesis by blast
qed

lemma add_system_user_unfold:
  assumes "build_user_add_cmd self u = Inr cmd"
    and "kerberos_ticket self env (subprocess_run env cmd True) st = (r, st')"
  shows "add_system_user self env u st =
    ((case r of
        Inl (OSError m) \<Rightarrow> Inl (could_not_call u cmd (OSError m))
      | Inl (CalledProcessError c rc out err) \<Rightarrow>
          Inl (returned_with_an_error u cmd (CalledProcessError c rc out err))
      | Inl e \<Rightarrow> Inl e
      | Inr p \<Rightarrow> Inr ()), st')"
  using assms by (simp add: add_system_user_def split: sum.splits exn.splits)

subsection \<open>\<^verbatim>\<open>system_user_exists\<close>\<close>



subsection \<open>\<^verbatim>\<open>pre_spawn_start\<close> for a spawner that has been active before\<close>

text \<open>
  Claim C8. When the spawner has a \<^verbatim>\<open>last_activity\<close>, \<^verbatim>\<open>pre_spawn_start\<close> returns at once:
  the clock and the trace are unchanged, so nothing was polled, no command was run and no time
  was spent waiting.
\<close>

theorem pre_spawn_start_prior_activity:
  assumes "last_activity sp = Some t"
  shows "pre_spawn_start self env u sp st = (Inr (), st)"
  using assms by (simp add: pre_spawn_start_def)

theorem pre_spawn_start_prior_activity_witness:
  "last_activity seen_before = Some 1700000000
   \<and> pre_spawn_start defaults failing_tools alice seen_before boot = (Inr (), boot)"
  using pre_spawn_start_prior_activity [of seen_before 1700000000 defaults failing_tools alice boot]
  by (simp add: seen_before_def)

subsection \<open>\<^verbatim>\<open>add_system_user\<close>\<close>

lemmas lex_defs = shlex_split_def whitespace_def quotes_def backslash_def

text \<open>What \<^verbatim>\<open>add_system_user\<close> runs, once the command line is built.\<close>

lemma add_system_user_events:
  assumes "build_user_add_cmd self u = Inr cmd"
  shows "(has_nul (kinit_cmd self) \<and> new_events st (snd (add_system_user self env u st)) = [])
       \<or> (\<exists>m. new_events st (snd (add_system_user self env u st))
                 = [Run (kinit_cmd self) (CannotLaunch m)])
       \<or> (has_nul cmd \<and> (\<exists>k d. launched k \<and> new_events st (snd (add_system_user self env u st))
                 = [Run (kinit_cmd self) k, Run (kdestroy_cmd self) d]))
       \<or> (\<not> has_nul (kinit_cmd self) \<and> \<not> has_nul cmd
           \<and> (\<exists>k c d. launched k \<and> new_events st (snd (add_system_user self env u st))
                 = [Run (kinit_cmd self) k, Run cmd c, Run (kdestroy_cmd self) d]))"
proof -
  obtain r0 st0 where t: "kerberos_ticket self env (subprocess_run env cmd True) st = (r0, st0)"
    by (cases "kerberos_ticket self env (subprocess_run env cmd True) st")
  have s: "snd (add_system_user self env u st) = st0"
    using add_system_user_unfold [OF assms t] by simp
  from kerberos_ticket_shape [OF t] show ?thesis
  proof (elim disjE conjE exE)
    assume "has_nul (kinit_cmd self)" "st0 = st"
    then show ?thesis using s by (simp add: new_events_def)
  next
    fix m
    assume "trace st0 = trace st @ [Run (kinit_cmd self) (CannotLaunch m)]"
    from new_events_append [OF this] show ?thesis using s by auto
  next
    fix k d st1 st2 rb
    assume a: "\<not> has_nul (kinit_cmd self)" "launched k"
      "trace st1 = trace st @ [Run (kinit_cmd self) k]"
      "subprocess_run env cmd True st1 = (rb, st2)"
      "trace st0 = trace st2 @ [Run (kdestroy_cmd self) d]"
    from run_body [OF a(4)] show ?thesis
    proof (elim disjE conjE exE)
      assume n: "has_nul cmd" "st2 = st1"
      have "new_events st st0 = [Run (kinit_cmd self) k, Run (kdestroy_cmd self) d]"
        using a(3,5) n(2) by (intro new_events_append) simp
      then show ?thesis using s n(1) a(2) by auto
    next
      fix c
      assume n: "\<not> has_nul cmd" "trace st2 = trace st1 @ [Run cmd c]"
      have "new_events st st0 = [Run (kinit_cmd self) k, Run cmd c, Run (kdestroy_cmd self) d]"
        using a(3,5) n(2) by (intro new_events_append) simp
      then show ?thesis using s n(1) a(1,2) by auto
    qed
  qed
qed

text \<open>
  Claim C9. The command line is the tokens of the configured string, then the user's name,
  then \<^verbatim>\<open>--group\<close> and the default group exactly when the group is not empty; and this
  is the command that \<^verbatim>\<open>add_system_user\<close> runs between \<^verbatim>\<open>kinit\<close> and \<^verbatim>\<open>kdestroy\<close>.
  It runs nothing else: only \<^verbatim>\<open>kinit\<close> when \<^verbatim>\<open>kinit\<close> cannot be started, and only
  what \<^verbatim>\<open>subprocess.run\<close> accepts (a command line with a NUL character in an argument is
  refused, the others of the three still run).
\<close>

theorem user_add_cmd_template:
  assumes "shlex_split (user_add_cmd self) = Inr tokens"
    and "cmd = tokens @ [name u] @
           (if default_group self = [] then [] else [''--group'', default_group self])"
  shows "build_user_add_cmd self u = Inr cmd
       \<and> ((has_nul (kinit_cmd self) \<and> new_events st (snd (add_system_user self env u st)) = [])
          \<or> (\<exists>m. new_events st (snd (add_system_user self env u st))
                 = [Run (kinit_cmd self) (CannotLaunch m)])
          \<or> (has_nul cmd \<and> (\<exists>k d. launched k \<and> new_events st (snd (add_system_user self env u st))
                 = [Run (kinit_cmd self) k, Run (kdestroy_cmd self) d]))
          \<or> (\<not> has_nul (kinit_cmd self) \<and> \<not> has_nul cmd
              \<and> (\<exists>k c d. launched k \<and> new_events st (snd (add_system_user self env u st))
                 = [Run (kinit_cmd self) k, Run cmd c, Run (kdestroy_cmd self) d])))"
proof -
  have built: "build_user_add_cmd self u = Inr cmd"
    using assms by (simp add: build_user_add_cmd_def)
  with add_system_user_events [OF built, of st env] show ?thesis by blast
qed

theorem user_add_cmd_template_witness:
  "shlex_split (user_add_cmd defaults) = Inr [''ipa_create_user.py'']
   \<and> build_user_add_cmd defaults alice
       = Inr [''ipa_create_user.py'', ''alice'', ''--group'', ''def-sponsor00'']
   \<and> build_user_add_cmd (defaults\<lparr>default_group := []\<rparr>) alice
       = Inr [''ipa_create_user.py'', ''alice'']
   \<and> new_events boot (snd (add_system_user defaults failing_tools alice boot))
       = [Run (kinit_cmd defaults) (Exited 1 [] ''error''),
          Run [''ipa_create_user.py'', ''alice'', ''--group'', ''def-sponsor00''] (Exited 1 [] ''error''),
          Run (kdestroy_cmd defaults) (Exited 1 [] ''error'')]"
  using user_add_cmd_template [of defaults "[''ipa_create_user.py'']"
      "[''ipa_create_user.py'', ''alice'', ''--group'', ''def-sponsor00'']" alice boot failing_tools]
    user_add_cmd_template [of "defaults\<lparr>default_group := []\<rparr>" "[''ipa_create_user.py'']"
      "[''ipa_create_user.py'', ''alice'']" alice boot failing_tools]
  by (simp add: defaults_def alice_def lex_defs add_system_user_def build_user_add_cmd_def
      kerberos_ticket_def run_defs new_events_def failing_tools_def boot_def kinit_cmd_def
      kdestroy_cmd_def)




subsection \<open>The pre-creation hook\<close>

text \<open>
  Claim C7. Two calls of the pre-creation hook in a row: when the user does not exist at the first
  call and exists at the second, the first call is the query followed by one call of
  \<^verbatim>\<open>add_system_user\<close> (it returns what that call returns), and the second call is the
  query alone. So \<^verbatim>\<open>add_system_user\<close> is called exactly once in total, and only when the
  query answered false.
\<close>

theorem pre_creation_hook_once:
  assumes "system_user_exists self env u st = (Inr False, st1)"
    and "add_system_user self env u st1 = (r, st2)"
    and "system_user_exists self env u st2 = (Inr True, st3)"
  shows "pre_creation_hook self env u st = (r, st2)
       \<and> pre_creation_hook self env u st2 = (Inr (), st3)"
  using assms by (simp add: pre_creation_hook_def)

lemmas directory_defs = directory_def create_alice_def

theorem pre_creation_hook_once_witness:
  "system_user_exists defaults directory alice boot
     = (Inr False, \<lparr>now = 0, trace =
          [Run (kinit_cmd defaults) (Exited 0 [] []),
           Run [''ipa'', ''user-show'', ''alice''] (Exited 2 [] ''alice: user not found''),
           Run (kdestroy_cmd defaults) (Exited 0 [] [])]\<rparr>)
   \<and> fst (pre_creation_hook defaults directory alice boot) = Inr ()
   \<and> count_run create_alice (trace (snd (pre_creation_hook defaults directory alice boot))) = 1
   \<and> fst (pre_creation_hook defaults directory alice
            (snd (pre_creation_hook defaults directory alice boot))) = Inr ()
   \<and> count_run create_alice (trace (snd (pre_creation_hook defaults directory alice
            (snd (pre_creation_hook defaults directory alice boot))))) = 1"
  using pre_creation_hook_once [of defaults directory alice boot
      "snd (system_user_exists defaults directory alice boot)"
      "fst (add_system_user defaults directory alice (snd (system_user_exists defaults directory alice boot)))"
      "snd (add_system_user defaults directory alice (snd (system_user_exists defaults directory alice boot)))"
      "snd (system_user_exists defaults directory alice
         (snd (add_system_user defaults directory alice (snd (system_user_exists defaults directory alice boot)))))"]
  by (simp add: pre_creation_hook_def system_user_exists_def add_system_user_def
      build_user_add_cmd_def kerberos_ticket_def run_defs example_defs lex_defs directory_defs
      user_show_cmd_def count_run_def)

subsection \<open>The two polling loops\<close>

lemma sleeps_simps [simp]:
  "sleeps [] = 0"
  "sleeps (Slept d # es) = Suc (sleeps es)"
  "sleeps (Exists p b # es) = sleeps es"
  "sleeps (Warning m # es) = sleeps es"
  "sleeps (Run a c # es) = sleeps es"
  "sleeps (xs @ ys) = sleeps xs + sleeps ys"
  by (simp_all add: sleeps_def)

lemma path_exists_eq:
  assumes "stat env st p = (found, d)"
  shows "path_exists env p st = (found, record_event (Exists p found) (elapse d st))"
  using assms by (simp add: path_exists_def)

lemma wait_home_found:
  assumes "path_exists env (home_of u) st = (True, st1)"
  shows "wait_home env D u st = (Inr (), st1)"
  using assms by (subst wait_home.simps) simp

lemma wait_home_cancelled:
  assumes "path_exists env (home_of u) st = (False, st1)"
    and "asyncio_sleep D 1 (log_warning (home_missing u) st1) = (Inl e, st2)"
  shows "wait_home env D u st = (Inl e, st2)"
  using assms by (subst wait_home.simps) simp

lemma wait_home_again:
  assumes "path_exists env (home_of u) st = (False, st1)"
    and "asyncio_sleep D 1 (log_warning (home_missing u) st1) = (Inr x, st2)"
  shows "wait_home env D u st = wait_home env D u st2"
  using assms by (subst wait_home.simps) simp

lemma path_exists_effect:
  assumes "path_exists env p st = (found, st1)"
  shows "trace st1 = trace st @ [Exists p found] \<and> now st \<le> now st1"
  using assms by (auto simp: path_exists_def record_event_def elapse_def split: prod.splits)

lemma sleep_cancelled:
  assumes "asyncio_sleep D 1 (log_warning msg st1) = (Inl e, st2)"
  shows "e = CancelledError \<and> trace st2 = trace st1 @ [Warning msg] \<and> now st2 = max D (now st1)
    \<and> D \<le> now st1 + 1"
  using assms by (auto simp: asyncio_sleep_def log_warning_def record_event_def split: if_splits)

lemma sleep_completed:
  assumes "asyncio_sleep D 1 (log_warning msg st1) = (Inr x, st2)"
  shows "trace st2 = trace st1 @ [Warning msg, Slept 1] \<and> now st2 = now st1 + 1 \<and> now st2 < D"
  using assms by (auto simp: asyncio_sleep_def log_warning_def record_event_def split: if_splits)

lemma wait_slurm_failed:
  assumes "subprocess_run env (sacctmgr_cmd u) False st = (Inl e, st1)"
  shows "wait_slurm env D u st = (Inl e, st1)"
  using assms by (subst wait_slurm.simps) simp

lemma wait_slurm_found:
  assumes "subprocess_run env (sacctmgr_cmd u) False st = (Inr p, st1)"
    and "length (stdout p) \<noteq> 0"
  shows "wait_slurm env D u st = (Inr (), st1)"
  using assms by (subst wait_slurm.simps) simp

lemma wait_slurm_cancelled:
  assumes "subprocess_run env (sacctmgr_cmd u) False st = (Inr p, st1)"
    and "length (stdout p) = 0"
    and "asyncio_sleep D 1 (log_warning (account_missing u) st1) = (Inl e, st2)"
  shows "wait_slurm env D u st = (Inl e, st2)"
  using assms by (subst wait_slurm.simps) simp

lemma wait_slurm_again:
  assumes "subprocess_run env (sacctmgr_cmd u) False st = (Inr p, st1)"
    and "length (stdout p) = 0"
    and "asyncio_sleep D 1 (log_warning (account_missing u) st1) = (Inr x, st2)"
  shows "wait_slurm env D u st = wait_slurm env D u st2"
  using assms by (subst wait_slurm.simps) simp

lemma home_round [simp]:
  "home_rounds u (Exists (home_of u) False # Warning (home_missing u) # Slept 1 # es) = home_rounds u es"
  by simp

lemma account_round [simp]:
  "account_rounds u (Run (sacctmgr_cmd u) (Exited rc [] err) # Warning (account_missing u) # Slept 1 # es)
     = account_rounds u es"
  by simp

text \<open>
  The first loop: rounds, then either the check that finds the directory, or a last
  unsatisfied check whose sleep is cancelled at or after the deadline. Every completed sleep
  ends before the deadline.
\<close>

lemma wait_home_shape:
  assumes "wait_home env D u st = (r, st')"
  shows "\<exists>ev hs. trace st' = trace st @ ev \<and> home_rounds u hs
     \<and> now st + of_nat (sleeps ev) \<le> now st'
     \<and> (sleeps ev = 0 \<or> now st + of_nat (sleeps ev) < D)
     \<and> ((r = Inl CancelledError \<and> D \<le> now st'
           \<and> ev = hs @ [Exists (home_of u) False, Warning (home_missing u)])
        \<or> (r = Inr () \<and> ev = hs @ [Exists (home_of u) True]))"
  using assms
proof (induction env D u st arbitrary: r st' rule: wait_home.induct)
  case (1 env D u st)
  obtain found st1 where pe: "path_exists env (home_of u) st = (found, st1)"
    by (cases "path_exists env (home_of u) st")
  note eff = path_exists_effect [OF pe]
  show ?case
  proof (cases found)
    case True
    with pe "1.prems" have "r = Inr ()" "st' = st1"
      using wait_home_found [of env u st st1 D] by simp_all
    with eff True show ?thesis
      by (intro exI [of _ "[Exists (home_of u) True]"] exI [of _ "[]"]) simp
  next
    case False
    obtain x st2 where sl: "asyncio_sleep D 1 (log_warning (home_missing u) st1) = (x, st2)"
      by (cases "asyncio_sleep D 1 (log_warning (home_missing u) st1)")
    show ?thesis
    proof (cases x)
      case (Inl e)
      with pe False sl "1.prems" have res: "r = Inl e" "st' = st2"
        using wait_home_cancelled [of env u st st1 D e st2] by simp_all
      from sleep_cancelled [of D "home_missing u" st1 e st2] sl Inl
      have c: "e = CancelledError" "trace st2 = trace st1 @ [Warning (home_missing u)]"
        "now st2 = max D (now st1)" by simp_all
      show ?thesis
        using res c eff False
        by (intro exI [of _ "[Exists (home_of u) False, Warning (home_missing u)]"] exI [of _ "[]"])
          auto
    next
      case (Inr b)
      with pe False sl "1.prems" have again: "wait_home env D u st2 = (r, st')"
        using wait_home_again [of env u st st1 D b st2] by simp
      from sleep_completed [of D "home_missing u" st1 b st2] sl Inr
      have c: "trace st2 = trace st1 @ [Warning (home_missing u), Slept 1]"
        "now st2 = now st1 + 1" "now st2 < D" by simp_all
      from False have nf: "found = False" by simp
      from "1.IH" [OF pe [symmetric] nf sl [symmetric] Inr again]
      obtain ev hs where ih: "trace st' = trace st2 @ ev" "home_rounds u hs"
        "now st2 + of_nat (sleeps ev) \<le> now st'"
        "sleeps ev = 0 \<or> now st2 + of_nat (sleeps ev) < D"
        "(r = Inl CancelledError \<and> D \<le> now st'
           \<and> ev = hs @ [Exists (home_of u) False, Warning (home_missing u)])
        \<or> (r = Inr () \<and> ev = hs @ [Exists (home_of u) True])"
        by blast
      let ?round = "[Exists (home_of u) False, Warning (home_missing u), Slept 1]"
      have t: "trace st' = trace st @ ?round @ ev" using ih(1) c(1) eff False by simp
      have l: "home_rounds u (?round @ hs)" using ih(2) by simp
      have n: "now st + of_nat (sleeps (?round @ ev)) \<le> now st'" using ih(3) c(2) eff by simp
      have d: "sleeps (?round @ ev) = 0 \<or> now st + of_nat (sleeps (?round @ ev)) < D"
        using ih(4) c(2,3) eff by auto
      have k: "(r = Inl CancelledError \<and> D \<le> now st'
           \<and> ?round @ ev = (?round @ hs) @ [Exists (home_of u) False, Warning (home_missing u)])
        \<or> (r = Inr () \<and> ?round @ ev = (?round @ hs) @ [Exists (home_of u) True])"
        using ih(5) by auto
      from t l n d k show ?thesis by blast
    qed
  qed
qed

text \<open>The second loop, in the same way; it can also end with a query that cannot be run.\<close>

lemma wait_slurm_shape:
  assumes "wait_slurm env D u st = (r, st')"
  shows "\<exists>ev as. trace st' = trace st @ ev \<and> account_rounds u as
     \<and> now st + of_nat (sleeps ev) \<le> now st'
     \<and> (sleeps ev = 0 \<or> now st + of_nat (sleeps ev) < D)
     \<and> ((r = Inl CancelledError \<and> D \<le> now st'
           \<and> (\<exists>rc err. ev = as @ [Run (sacctmgr_cmd u) (Exited rc [] err),
                                   Warning (account_missing u)]))
        \<or> (r = Inr () \<and> (\<exists>rc out err. out \<noteq> []
              \<and> ev = as @ [Run (sacctmgr_cmd u) (Exited rc out err)]))
        \<or> (\<exists>m. r = Inl (OSError m) \<and> ev = as @ [Run (sacctmgr_cmd u) (CannotLaunch m)])
        \<or> (r = Inl (ValueError ''embedded null byte'') \<and> has_nul (sacctmgr_cmd u)
            \<and> ev = [] \<and> as = []))"
  using assms
proof (induction env D u st arbitrary: r st' rule: wait_slurm.induct)
  case (1 env D u st)
  obtain x st1 where run: "subprocess_run env (sacctmgr_cmd u) False st = (x, st1)"
    by (cases "subprocess_run env (sacctmgr_cmd u) False st")
  note eff = subprocess_run_effect [OF run]
  show ?case
  proof (cases x)
    case (Inl e)
    with run "1.prems" have res: "r = Inl e" "st' = st1"
      using wait_slurm_failed [of env u st e st1 D] by simp_all
    from eff Inl consider
      (nul) "has_nul (sacctmgr_cmd u)" "e = ValueError ''embedded null byte''" "st1 = st"
      | (os) m where "e = OSError m" "trace st1 = trace st @ [Run (sacctmgr_cmd u) (CannotLaunch m)]"
      by auto
    then show ?thesis
    proof cases
      case nul
      with res show ?thesis by (intro exI [of _ "[]"]) simp
    next
      case os
      with res eff show ?thesis
        by (intro exI [of _ "[Run (sacctmgr_cmd u) (CannotLaunch m)]"] exI [of _ "[]"]) simp
    qed
  next
    case (Inr p)
    with eff have tr: "trace st1 = trace st
        @ [Run (sacctmgr_cmd u) (Exited (returncode p) (stdout p) (stderr p))]"
      and mono: "now st \<le> now st1" and clean: "\<not> has_nul (sacctmgr_cmd u)" by simp_all
    show ?thesis
    proof (cases "length (stdout p) = 0")
      case False
      with run Inr "1.prems" have "r = Inr ()" "st' = st1"
        using wait_slurm_found [of env u st p st1 D] by simp_all
      with tr mono False show ?thesis
        by (intro exI [of _ "[Run (sacctmgr_cmd u) (Exited (returncode p) (stdout p) (stderr p))]"]
            exI [of _ "[]"]) auto
    next
      case True
      then have empty: "stdout p = []" by simp
      obtain y st2 where sl: "asyncio_sleep D 1 (log_warning (account_missing u) st1) = (y, st2)"
        by (cases "asyncio_sleep D 1 (log_warning (account_missing u) st1)")
      show ?thesis
      proof (cases y)
        case il: (Inl e)
        with run Inr True sl "1.prems" have res: "r = Inl e" "st' = st2"
          using wait_slurm_cancelled [of env u st p st1 D e st2] by simp_all
        from sleep_cancelled [of D "account_missing u" st1 e st2] sl il
        have c: "e = CancelledError" "trace st2 = trace st1 @ [Warning (account_missing u)]"
          "now st2 = max D (now st1)" by simp_all
        show ?thesis
          using res c tr mono empty
          by (intro exI [of _ "[Run (sacctmgr_cmd u) (Exited (returncode p) [] (stderr p)),
                Warning (account_missing u)]"] exI [of _ "[]"]) auto
      next
        case ir: (Inr b)
        with run Inr True sl "1.prems" have again: "wait_slurm env D u st2 = (r, st')"
          using wait_slurm_again [of env u st p st1 D b st2] by simp
        from sleep_completed [of D "account_missing u" st1 b st2] sl ir
        have c: "trace st2 = trace st1 @ [Warning (account_missing u), Slept 1]"
          "now st2 = now st1 + 1" "now st2 < D" by simp_all
        from "1.IH" [OF run [symmetric] Inr True sl [symmetric] ir again] clean
        obtain ev as where ih: "trace st' = trace st2 @ ev" "account_rounds u as"
          "now st2 + of_nat (sleeps ev) \<le> now st'"
          "sleeps ev = 0 \<or> now st2 + of_nat (sleeps ev) < D"
          "(r = Inl CancelledError \<and> D \<le> now st'
             \<and> (\<exists>rc err. ev = as @ [Run (sacctmgr_cmd u) (Exited rc [] err),
                                     Warning (account_missing u)]))
          \<or> (r = Inr () \<and> (\<exists>rc out err. out \<noteq> []
                \<and> ev = as @ [Run (sacctmgr_cmd u) (Exited rc out err)]))
          \<or> (\<exists>m. r = Inl (OSError m) \<and> ev = as @ [Run (sacctmgr_cmd u) (CannotLaunch m)])"
          by blast
        let ?round = "[Run (sacctmgr_cmd u) (Exited (returncode p) [] (stderr p)),
                       Warning (account_missing u), Slept 1]"
        have t: "trace st' = trace st @ ?round @ ev" using ih(1) c(1) tr empty by simp
        have l: "account_rounds u (?round @ as)" using ih(2) by simp
        have n: "now st + of_nat (sleeps (?round @ ev)) \<le> now st'" using ih(3) c(2) mono by simp
        have d: "sleeps (?round @ ev) = 0 \<or> now st + of_nat (sleeps (?round @ ev)) < D"
          using ih(4) c(2,3) mono by auto
        have k: "(r = Inl CancelledError \<and> D \<le> now st'
             \<and> (\<exists>rc err. ?round @ ev = (?round @ as) @ [Run (sacctmgr_cmd u) (Exited rc [] err),
                                     Warning (account_missing u)]))
          \<or> (r = Inr () \<and> (\<exists>rc out err. out \<noteq> []
                \<and> ?round @ ev = (?round @ as) @ [Run (sacctmgr_cmd u) (Exited rc out err)]))
          \<or> (\<exists>m. r = Inl (OSError m)
                \<and> ?round @ ev = (?round @ as) @ [Run (sacctmgr_cmd u) (CannotLaunch m)])"
          using ih(5) by auto
        from t l n d k show ?thesis by blast
      qed
    qed
  qed
qed

lemma timeout_result:
  assumes "body (now st + of_int delay) st = (r, st')"
  shows "asyncio_timeout delay body st =
    (if r = Inl CancelledError then Inl (TimeoutError []) else r, st')"
  using assms by (simp add: asyncio_timeout_def split: sum.splits exn.splits)

text \<open>
  The body of the timeout: the rounds of the first loop and, for a \<^verbatim>\<open>SlurmSpawner\<close> once
  the home directory was found, the rounds of the second loop.
\<close>

lemma wait_conditions_shape:
  assumes "wait_conditions env u sp D st = (r, st')"
  shows "\<exists>ev hs as. trace st' = trace st @ ev \<and> home_rounds u hs \<and> account_rounds u as
     \<and> (sleeps ev = 0 \<or> now st + of_nat (sleeps ev) < D)
     \<and> ((r = Inl CancelledError \<and> D \<le> now st'
           \<and> ev = hs @ [Exists (home_of u) False, Warning (home_missing u)])
        \<or> (r = Inr () \<and> \<not> is_SlurmSpawner sp \<and> ev = hs @ [Exists (home_of u) True])
        \<or> (is_SlurmSpawner sp \<and> r = Inl CancelledError \<and> D \<le> now st'
            \<and> (\<exists>rc err. ev = hs @ [Exists (home_of u) True] @ as
                 @ [Run (sacctmgr_cmd u) (Exited rc [] err), Warning (account_missing u)]))
        \<or> (is_SlurmSpawner sp \<and> r = Inr ()
            \<and> (\<exists>rc out err. out \<noteq> [] \<and> ev = hs @ [Exists (home_of u) True] @ as
                 @ [Run (sacctmgr_cmd u) (Exited rc out err)]))
        \<or> (is_SlurmSpawner sp
            \<and> (\<exists>m. r = Inl (OSError m) \<and> ev = hs @ [Exists (home_of u) True] @ as
                 @ [Run (sacctmgr_cmd u) (CannotLaunch m)]))
        \<or> (is_SlurmSpawner sp \<and> has_nul (sacctmgr_cmd u)
            \<and> r = Inl (ValueError ''embedded null byte'')
            \<and> ev = hs @ [Exists (home_of u) True]))"
proof -
  obtain r1 st1 where h: "wait_home env D u st = (r1, st1)"
    by (cases "wait_home env D u st")
  from wait_home_shape [OF h] obtain ev1 hs where hs: "trace st1 = trace st @ ev1"
    "home_rounds u hs" "now st + of_nat (sleeps ev1) \<le> now st1"
    "sleeps ev1 = 0 \<or> now st + of_nat (sleeps ev1) < D"
    "(r1 = Inl CancelledError \<and> D \<le> now st1
        \<and> ev1 = hs @ [Exists (home_of u) False, Warning (home_missing u)])
     \<or> (r1 = Inr () \<and> ev1 = hs @ [Exists (home_of u) True])"
    by blast
  have none: "account_rounds u []" by simp
  from hs(5) show ?thesis
  proof (elim disjE conjE)
    assume a: "r1 = Inl CancelledError" "D \<le> now st1"
      "ev1 = hs @ [Exists (home_of u) False, Warning (home_missing u)]"
    with h assms have "r = Inl CancelledError" "st' = st1" by (simp_all add: wait_conditions_def)
    with a hs(1,2,4) none show ?thesis by blast
  next
    assume a: "r1 = Inr ()" "ev1 = hs @ [Exists (home_of u) True]"
    show ?thesis
    proof (cases "is_SlurmSpawner sp")
      case False
      with h a assms have "r = Inr ()" "st' = st1" by (simp_all add: wait_conditions_def)
      with a False hs(1,2,4) none show ?thesis by blast
    next
      case True
      with h a assms have s: "wait_slurm env D u st1 = (r, st')"
        by (simp add: wait_conditions_def)
      from wait_slurm_shape [OF s] obtain ev2 as where as: "trace st' = trace st1 @ ev2"
        "account_rounds u as" "now st1 + of_nat (sleeps ev2) \<le> now st'"
        "sleeps ev2 = 0 \<or> now st1 + of_nat (sleeps ev2) < D"
        "(r = Inl CancelledError \<and> D \<le> now st'
           \<and> (\<exists>rc err. ev2 = as @ [Run (sacctmgr_cmd u) (Exited rc [] err),
                                   Warning (account_missing u)]))
        \<or> (r = Inr () \<and> (\<exists>rc out err. out \<noteq> []
              \<and> ev2 = as @ [Run (sacctmgr_cmd u) (Exited rc out err)]))
        \<or> (\<exists>m. r = Inl (OSError m) \<and> ev2 = as @ [Run (sacctmgr_cmd u) (CannotLaunch m)])
        \<or> (r = Inl (ValueError ''embedded null byte'') \<and> has_nul (sacctmgr_cmd u)
            \<and> ev2 = [] \<and> as = [])"
        by blast
      have t: "trace st' = trace st @ ev1 @ ev2" using hs(1) as(1) by simp
      have d: "sleeps (ev1 @ ev2) = 0 \<or> now st + of_nat (sleeps (ev1 @ ev2)) < D"
        using hs(3,4) as(4) by auto
      have k: "(is_SlurmSpawner sp \<and> r = Inl CancelledError \<and> D \<le> now st'
            \<and> (\<exists>rc err. ev1 @ ev2 = hs @ [Exists (home_of u) True] @ as
                 @ [Run (sacctmgr_cmd u) (Exited rc [] err), Warning (account_missing u)]))
        \<or> (is_SlurmSpawner sp \<and> r = Inr ()
            \<and> (\<exists>rc out err. out \<noteq> [] \<and> ev1 @ ev2 = hs @ [Exists (home_of u) True] @ as
                 @ [Run (sacctmgr_cmd u) (Exited rc out err)]))
        \<or> (is_SlurmSpawner sp
            \<and> (\<exists>m. r = Inl (OSError m) \<and> ev1 @ ev2 = hs @ [Exists (home_of u) True] @ as
                 @ [Run (sacctmgr_cmd u) (CannotLaunch m)]))
        \<or> (is_SlurmSpawner sp \<and> has_nul (sacctmgr_cmd u)
            \<and> r = Inl (ValueError ''embedded null byte'')
            \<and> ev1 @ ev2 = hs @ [Exists (home_of u) True])"
        using as(5) a(2) True by auto
      from t hs(2) as(2) d k show ?thesis by blast
    qed
  qed
qed


subsection \<open>\<^verbatim>\<open>pre_spawn_start\<close> on a first start\<close>

lemmas gate_defs = pre_spawn_start_def asyncio_timeout_def wait_conditions_def wait_home.simps
  wait_slurm.simps path_exists_def asyncio_sleep_def log_warning_def run_defs home_of_def
  home_missing_def account_missing_def sacctmgr_cmd_def

text \<open>
  Claim C4. On a first start, what \<^verbatim>\<open>pre_spawn_start\<close> does is exactly this. First the
  home directory is polled: zero or more rounds, each a check that finds no \<^verbatim>\<open>/home/<name>\<close>,
  the warning and a sleep of one second, so consecutive checks are one sleep of one second
  apart. The rounds end with a check that finds the directory, or with an unsatisfied check
  whose sleep is cut short by the timeout. For a spawner that is not a \<^verbatim>\<open>SlurmSpawner\<close> the
  gate is over when the directory is found, and the scheduler is never asked. For a
  \<^verbatim>\<open>SlurmSpawner\<close> the accounting record is polled next, and only then: zero or more rounds,
  each a query \<^verbatim>\<open>sacctmgr show user -n <name>\<close> that printed nothing (whatever its exit
  status), the warning and a sleep of one second. These rounds end with a query that printed
  something, which is success, or with an empty query whose sleep is cut short by the timeout,
  or with a query that could not be run. Both loops run under one deadline: the completed
  sleeps of the two loops together are fewer than \<^verbatim>\<open>pre_spawn_timeout\<close>.
\<close>

theorem gate_polling_order:
  assumes "last_activity sp = None"
    and "pre_spawn_start self env u sp st = (r, st')"
  shows "\<exists>hs as. home_rounds u hs \<and> account_rounds u as
     \<and> (sleeps (new_events st st') = 0
        \<or> int (sleeps (new_events st st')) < pre_spawn_timeout self)
     \<and> ((r = Inl (TimeoutError []) \<and> now st + of_int (pre_spawn_timeout self) \<le> now st'
           \<and> new_events st st' = hs @ [Exists (home_of u) False, Warning (home_missing u)])
        \<or> (r = Inr () \<and> \<not> is_SlurmSpawner sp
            \<and> new_events st st' = hs @ [Exists (home_of u) True])
        \<or> (is_SlurmSpawner sp \<and> r = Inl (TimeoutError [])
            \<and> now st + of_int (pre_spawn_timeout self) \<le> now st'
            \<and> (\<exists>rc err. new_events st st' = hs @ [Exists (home_of u) True] @ as
                 @ [Run (sacctmgr_cmd u) (Exited rc [] err), Warning (account_missing u)]))
        \<or> (is_SlurmSpawner sp \<and> r = Inr ()
            \<and> (\<exists>rc out err. out \<noteq> [] \<and> new_events st st' = hs @ [Exists (home_of u) True] @ as
                 @ [Run (sacctmgr_cmd u) (Exited rc out err)]))
        \<or> (is_SlurmSpawner sp
            \<and> (\<exists>m. r = Inl (OSError m) \<and> new_events st st' = hs @ [Exists (home_of u) True] @ as
                 @ [Run (sacctmgr_cmd u) (CannotLaunch m)]))
        \<or> (is_SlurmSpawner sp \<and> has_nul (sacctmgr_cmd u)
            \<and> r = Inl (ValueError ''embedded null byte'')
            \<and> new_events st st' = hs @ [Exists (home_of u) True]))"
proof -
  let ?D = "now st + of_int (pre_spawn_timeout self)"
  obtain r0 st0 where w: "wait_conditions env u sp ?D st = (r0, st0)"
    by (cases "wait_conditions env u sp ?D st")
  from timeout_result [of "wait_conditions env u sp" st "pre_spawn_timeout self", OF w] assms
  have res: "st' = st0" "r = (if r0 = Inl CancelledError then Inl (TimeoutError []) else r0)"
    by (simp_all add: pre_spawn_start_def)
  from wait_conditions_shape [OF w] obtain ev hs as where s: "trace st0 = trace st @ ev"
    "home_rounds u hs" "account_rounds u as"
    "sleeps ev = 0 \<or> now st + of_nat (sleeps ev) < ?D"
    "(r0 = Inl CancelledError \<and> ?D \<le> now st0
           \<and> ev = hs @ [Exists (home_of u) False, Warning (home_missing u)])
        \<or> (r0 = Inr () \<and> \<not> is_SlurmSpawner sp \<and> ev = hs @ [Exists (home_of u) True])
        \<or> (is_SlurmSpawner sp \<and> r0 = Inl CancelledError \<and> ?D \<le> now st0
            \<and> (\<exists>rc err. ev = hs @ [Exists (home_of u) True] @ as
                 @ [Run (sacctmgr_cmd u) (Exited rc [] err), Warning (account_missing u)]))
        \<or> (is_SlurmSpawner sp \<and> r0 = Inr ()
            \<and> (\<exists>rc out err. out \<noteq> [] \<and> ev = hs @ [Exists (home_of u) True] @ as
                 @ [Run (sacctmgr_cmd u) (Exited rc out err)]))
        \<or> (is_SlurmSpawner sp
            \<and> (\<exists>m. r0 = Inl (OSError m) \<and> ev = hs @ [Exists (home_of u) True] @ as
                 @ [Run (sacctmgr_cmd u) (CannotLaunch m)]))
        \<or> (is_SlurmSpawner sp \<and> has_nul (sacctmgr_cmd u)
            \<and> r0 = Inl (ValueError ''embedded null byte'')
            \<and> ev = hs @ [Exists (home_of u) True])"
    by blast
  have new: "new_events st st' = ev" using new_events_append [OF s(1)] res(1) by simp
  define k where "k = sleeps ev"
  have "k = 0 \<or> int k < pre_spawn_timeout self"
  proof (cases "k = 0")
    case False
    with s(4) have "now st + of_nat k < ?D" by (simp only: k_def) blast
    then have "(of_int (int k) :: rat) < of_int (pre_spawn_timeout self)" by simp
    then show ?thesis by (simp only: of_int_less_iff) simp
  qed simp
  then have b: "sleeps (new_events st st') = 0
      \<or> int (sleeps (new_events st st')) < pre_spawn_timeout self"
    by (simp only: k_def new)
  note fin = s(2) s(3) b
  from s(5) show ?thesis
  proof (elim disjE conjE exE)
    assume a: "r0 = Inl CancelledError" "?D \<le> now st0"
      "ev = hs @ [Exists (home_of u) False, Warning (home_missing u)]"
    have "r = Inl (TimeoutError [])" using res(2) a(1) by simp
    moreover have "new_events st st' = hs @ [Exists (home_of u) False, Warning (home_missing u)]"
      using new a(3) by simp
    moreover have "?D \<le> now st'" using a(2) res(1) by simp
    ultimately show ?thesis using fin by blast
  next
    assume a: "r0 = Inr ()" "\<not> is_SlurmSpawner sp" "ev = hs @ [Exists (home_of u) True]"
    have "r = Inr ()" using res(2) a(1) by simp
    moreover have "new_events st st' = hs @ [Exists (home_of u) True]" using new a(3) by simp
    ultimately show ?thesis using fin a(2) by blast
  next
    fix rc err
    assume a: "is_SlurmSpawner sp" "r0 = Inl CancelledError" "?D \<le> now st0"
      "ev = hs @ [Exists (home_of u) True] @ as
         @ [Run (sacctmgr_cmd u) (Exited rc [] err), Warning (account_missing u)]"
    have "r = Inl (TimeoutError [])" using res(2) a(2) by simp
    moreover have "new_events st st' = hs @ [Exists (home_of u) True] @ as
         @ [Run (sacctmgr_cmd u) (Exited rc [] err), Warning (account_missing u)]"
      using new a(4) by simp
    moreover have "?D \<le> now st'" using a(3) res(1) by simp
    ultimately show ?thesis using fin a(1) by blast
  next
    fix rc out err
    assume a: "is_SlurmSpawner sp" "r0 = Inr ()" "out \<noteq> []"
      "ev = hs @ [Exists (home_of u) True] @ as @ [Run (sacctmgr_cmd u) (Exited rc out err)]"
    have "r = Inr ()" using res(2) a(2) by simp
    moreover have "new_events st st' = hs @ [Exists (home_of u) True] @ as
         @ [Run (sacctmgr_cmd u) (Exited rc out err)]"
      using new a(4) by simp
    ultimately show ?thesis using fin a(1,3) by blast
  next
    fix m
    assume a: "is_SlurmSpawner sp" "r0 = Inl (OSError m)"
      "ev = hs @ [Exists (home_of u) True] @ as @ [Run (sacctmgr_cmd u) (CannotLaunch m)]"
    have "r = Inl (OSError m)" using res(2) a(2) by simp
    moreover have "new_events st st' = hs @ [Exists (home_of u) True] @ as
         @ [Run (sacctmgr_cmd u) (CannotLaunch m)]"
      using new a(3) by simp
    ultimately show ?thesis using fin a(1) by blast
  next
    assume a: "is_SlurmSpawner sp" "has_nul (sacctmgr_cmd u)"
      "r0 = Inl (ValueError ''embedded null byte'')" "ev = hs @ [Exists (home_of u) True]"
    have "r = Inl (ValueError ''embedded null byte'')" using res(2) a(3) by simp
    moreover have "new_events st st' = hs @ [Exists (home_of u) True]" using new a(4) by simp
    ultimately show ?thesis using fin a(1,2) by blast
  qed
qed

theorem gate_polling_order_witness:
  "last_activity first_slurm = None
   \<and> pre_spawn_start short late_home alice first_slurm boot
     = (Inl (TimeoutError []),
        \<lparr>now = 2, trace =
          [Exists ''/home/alice'' False, Warning ''Home folder for alice is missing'', Slept 1,
           Exists ''/home/alice'' True,
           Run [''sacctmgr'', ''show'', ''user'', ''-n'', ''alice''] (Exited 0 [] []),
           Warning ''Slurm account for alice is missing'']\<rparr>)"
  using gate_polling_order [of first_slurm short late_home alice boot "Inl (TimeoutError [])"
      "\<lparr>now = 2, trace =
          [Exists ''/home/alice'' False, Warning ''Home folder for alice is missing'', Slept 1,
           Exists ''/home/alice'' True,
           Run [''sacctmgr'', ''show'', ''user'', ''-n'', ''alice''] (Exited 0 [] []),
           Warning ''Slurm account for alice is missing'']\<rparr>"]
  by (simp add: gate_defs short_def late_home_def first_slurm_def defaults_def alice_def boot_def)


lemma wait_home_never:
  assumes "\<forall>s. fst (stat env s (home_of u)) = False"
  shows "\<exists>st'. wait_home env D u st = (Inl CancelledError, st') \<and> D \<le> now st'
     \<and> ((\<forall>s. snd (stat env s (home_of u)) \<le> 1) \<longrightarrow> now st' \<le> max (D + 1) (now st + 1))"
  using assms
proof (induction env D u st rule: wait_home.induct)
  case (1 env D u st)
  obtain found d where sd: "stat env st (home_of u) = (found, d)"
    by (cases "stat env st (home_of u)")
  with "1.prems" have nf: "found = False" by (metis fst_conv)
  define st1 where "st1 = record_event (Exists (home_of u) found) (elapse d st)"
  have pe: "path_exists env (home_of u) st = (found, st1)"
    using path_exists_eq [OF sd] by (simp add: st1_def)
  have t1: "now st1 = now st + max 0 d"
    by (simp add: st1_def record_event_def elapse_def)
  have quick1: "now st1 \<le> now st + 1" if "\<forall>s. snd (stat env s (home_of u)) \<le> 1"
  proof -
    from that sd have "d \<le> 1" by (metis snd_conv)
    then show ?thesis using t1 by simp
  qed
  obtain x st2 where sl: "asyncio_sleep D 1 (log_warning (home_missing u) st1) = (x, st2)"
    by (cases "asyncio_sleep D 1 (log_warning (home_missing u) st1)")
  show ?case
  proof (cases x)
    case (Inl e)
    from sleep_cancelled [of D "home_missing u" st1 e st2] sl Inl
    have c: "e = CancelledError" "now st2 = max D (now st1)" by simp_all
    have "wait_home env D u st = (Inl CancelledError, st2)"
      using wait_home_cancelled [of env u st st1 D e st2] pe nf sl Inl c(1) by simp
    moreover have "D \<le> now st2" using c(2) by simp
    moreover have "now st2 \<le> max (D + 1) (now st + 1)"
      if "\<forall>s. snd (stat env s (home_of u)) \<le> 1"
      using quick1 [OF that] c(2) by (auto simp: max_def)
    ultimately show ?thesis by blast
  next
    case (Inr b)
    from sleep_completed [of D "home_missing u" st1 b st2] sl Inr
    have c: "now st2 = now st1 + 1" "now st2 < D" by simp_all
    have again: "wait_home env D u st = wait_home env D u st2"
      using wait_home_again [of env u st st1 D b st2] pe nf sl Inr by simp
    from "1.IH" [OF pe [symmetric] nf sl [symmetric] Inr "1.prems"]
    obtain st' where ih: "wait_home env D u st2 = (Inl CancelledError, st')" "D \<le> now st'"
      "(\<forall>s. snd (stat env s (home_of u)) \<le> 1) \<longrightarrow> now st' \<le> max (D + 1) (now st2 + 1)"
      by blast
    have "now st' \<le> max (D + 1) (now st + 1)" if "\<forall>s. snd (stat env s (home_of u)) \<le> 1"
      using ih(3) that c(2) by (auto simp: max_def)
    with ih(1,2) again show ?thesis by auto
  qed
qed




text \<open>
  Claim C3, as stated, fails: the timeout can only interrupt the task while it sleeps. With a
  timeout of two seconds and a file-system check that takes five, the error is raised five
  seconds after the call, later than the timeout plus one poll interval.
\<close>

theorem slow_check_overruns_deadline:
  "pre_spawn_start short slow_disk alice first_local boot
     = (Inl (TimeoutError []),
        \<lparr>now = 5, trace = [Exists ''/home/alice'' False, Warning ''Home folder for alice is missing'']\<rparr>)
   \<and> \<not> (5 :: rat) \<le> of_int (pre_spawn_timeout short) + 1"
  by (simp add: gate_defs short_def slow_disk_def first_local_def defaults_def
      alice_def boot_def)

text \<open>
  Claim C3, amended. When the home directory never appears, a first start fails with
  \<^verbatim>\<open>TimeoutError\<close>, no earlier than \<^verbatim>\<open>pre_spawn_timeout\<close> seconds after the call. It
  fails no later than \<^verbatim>\<open>pre_spawn_timeout\<close> plus one poll interval when the timeout is
  not negative and every check of the home directory returns within one poll interval.
\<close>

theorem gate_timeout_bounds:
  assumes "last_activity sp = None"
    and "\<forall>s. fst (stat env s (home_of u)) = False"
  shows "fst (pre_spawn_start self env u sp st) = Inl (TimeoutError [])
     \<and> now st + of_int (pre_spawn_timeout self) \<le> now (snd (pre_spawn_start self env u sp st))
     \<and> ((\<forall>s. snd (stat env s (home_of u)) \<le> 1) \<and> 0 \<le> pre_spawn_timeout self \<longrightarrow>
          now (snd (pre_spawn_start self env u sp st))
            \<le> now st + of_int (pre_spawn_timeout self) + 1)"
proof -
  let ?D = "now st + of_int (pre_spawn_timeout self)"
  from wait_home_never [OF assms(2), of ?D st]
  obtain st' where h: "wait_home env ?D u st = (Inl CancelledError, st')" "?D \<le> now st'"
    "(\<forall>s. snd (stat env s (home_of u)) \<le> 1) \<longrightarrow> now st' \<le> max (?D + 1) (now st + 1)"
    by blast
  have w: "wait_conditions env u sp ?D st = (Inl CancelledError, st')"
    using h(1) by (simp add: wait_conditions_def)
  have res: "pre_spawn_start self env u sp st = (Inl (TimeoutError []), st')"
    using timeout_result [of "wait_conditions env u sp" st "pre_spawn_timeout self", OF w] assms(1)
    by (simp add: pre_spawn_start_def)
  have "now st' \<le> ?D + 1"
    if "(\<forall>s. snd (stat env s (home_of u)) \<le> 1) \<and> 0 \<le> pre_spawn_timeout self"
  proof -
    from that have "now st' \<le> max (?D + 1) (now st + 1)" using h(3) by blast
    moreover have "(0 :: rat) \<le> of_int (pre_spawn_timeout self)" using that by simp
    then have "max (?D + 1) (now st + 1) = ?D + 1" by (simp only: max_def) simp
    ultimately show ?thesis by (simp only:)
  qed
  with res h(2) show ?thesis by simp
qed

theorem gate_timeout_bounds_witness:
  "last_activity first_local = None
   \<and> (\<forall>s. fst (stat no_home s (home_of alice)) = False)
   \<and> (\<forall>s. snd (stat no_home s (home_of alice)) \<le> 1)
   \<and> 0 \<le> pre_spawn_timeout short
   \<and> fst (pre_spawn_start short no_home alice first_local boot) = Inl (TimeoutError [])
   \<and> now (snd (pre_spawn_start short no_home alice first_local boot)) = 2"
  using gate_timeout_bounds [of first_local no_home alice short boot]
  by (simp add: gate_defs short_def no_home_def first_local_def defaults_def alice_def boot_def)

end
